theory Spec2Isabelle
  imports Complex_Main "HOL-Library.Word" "HOL-Library.Signed_Division"
begin

section \<open>The HDR histogram metric of pkg/util/metric/hdrhistogram.go\<close>

text \<open>
  The development embeds \<^verbatim>\<open>HdrHistogram\<close> and its methods from
  \<^verbatim>\<open>src/pkg/util/metric/hdrhistogram.go\<close>. The mutex is not modelled: every method is
  one atomic function on the guarded state. A method that reads the clock takes the reading
  as its argument \<open>now\<close>.
\<close>

subsection \<open>Machine types\<close>

type_synonym int64 = "64 word"
type_synonym uint64 = "64 word"

text \<open>
  \<^verbatim>\<open>time.Time\<close> and \<^verbatim>\<open>time.Duration\<close>, in nanoseconds. No method of the file
  computes with them; the only arithmetic is the division in the constructor.
\<close>

type_synonym time = int
type_synonym duration = int

text \<open>
  \<^verbatim>\<open>float64\<close>. The arithmetic of the floating point unit is a parameter of the model:
  a method that computes on \<^verbatim>\<open>float64\<close> takes the operations it uses, and a theorem
  about it holds for every choice of them, the IEEE ones included. \<open>f_of_int\<close> is the
  conversion \<^verbatim>\<open>float64(x)\<close> of an integer, given by its value.
\<close>

record 'f float64_ops =
  f_zero :: 'f
  f_add :: "'f \<Rightarrow> 'f \<Rightarrow> 'f"
  f_mul :: "'f \<Rightarrow> 'f \<Rightarrow> 'f"
  f_div :: "'f \<Rightarrow> 'f \<Rightarrow> 'f"
  f_of_int :: "int \<Rightarrow> 'f"

text \<open>Exact arithmetic, one choice of the operations; the concrete runs below use it.\<close>

definition exact_ops :: "real float64_ops" where
  "exact_ops = \<lparr>f_zero = 0, f_add = (+), f_mul = (*), f_div = (/), f_of_int = real_of_int\<rparr>"

subsection \<open>The bucketed distribution (github.com/codahale/hdrhistogram)\<close>

text \<open>
  Modelled from the spec: \<^verbatim>\<open>hdrhistogram.Bar\<close> is declared in the imported package. The
  spec's bar is a count and an upper bound; the loops of the file read the fields
  \<^verbatim>\<open>To\<close> and \<^verbatim>\<open>Count\<close> and convert both from a signed integer (lines 173-176),
  which the model takes as \<^verbatim>\<open>int64\<close>.
\<close>

record Bar =
  From :: int64
  To :: int64
  Count :: int64

text \<open>
  Modelled from the spec: \<^verbatim>\<open>hdrhistogram.Histogram\<close>, the spec's BucketedDistribution,
  is an imported package whose code is not among the sources. The spec describes it as a
  histogram over \<open>[0, maxValue]\<close> that supports record, merge, mean and
  distribution-as-bars, that signals a value as out of range when it is negative or above
  \<open>maxValue\<close>, and whose bucket granularity affects none of the behaviour described. The
  model keeps one count per bucket and takes the finest granularity: bucket \<open>i\<close> holds
  the value \<open>i\<close>. Counts are natural numbers.
\<close>

record Histogram =
  lowestTrackableValue :: int64
  highestTrackableValue :: int64
  significantFigures :: int
  counts :: "nat list"

text \<open>
  Modelled from the spec: \<^verbatim>\<open>hdrhistogram.New(minValue, maxValue, sigfigs)\<close>, an empty
  distribution over \<open>[0, maxValue]\<close>: one bucket for each value of the range.
\<close>

definition hist_New :: "int64 \<Rightarrow> int64 \<Rightarrow> int \<Rightarrow> Histogram" where
  "hist_New minValue maxValue sigfigs =
     \<lparr>lowestTrackableValue = minValue, highestTrackableValue = maxValue,
      significantFigures = sigfigs, counts = replicate (nat (sint maxValue + 1)) 0\<rparr>"

text \<open>
  Modelled from the spec: \<^verbatim>\<open>(*Histogram).RecordValue(v)\<close>. The distribution signals a
  value as out of its range when it is negative or above \<open>maxValue\<close>; \<open>None\<close> is that
  error. A value in range adds one to the count of its bucket.
\<close>

definition hist_RecordValue :: "Histogram \<Rightarrow> int64 \<Rightarrow> Histogram option" where
  "hist_RecordValue h v =
     (if sint v < 0 \<or> sint (highestTrackableValue h) < sint v then None
      else Some (h\<lparr>counts := (counts h)[nat (sint v) := counts h ! nat (sint v) + 1]\<rparr>))"

text \<open>
  Modelled from the spec: \<^verbatim>\<open>(*Histogram).TotalCount()\<close>, the number of samples. The
  package returns it as \<^verbatim>\<open>int64\<close>; the model returns the number itself.
\<close>

definition hist_TotalCount :: "Histogram \<Rightarrow> int" where
  "hist_TotalCount h = int (sum_list (counts h))"

text \<open>Modelled from the spec: \<^verbatim>\<open>(*Histogram).Reset()\<close>, which clears every bucket.\<close>

definition hist_Reset :: "Histogram \<Rightarrow> Histogram" where
  "hist_Reset h = h\<lparr>counts := map (\<lambda>c. 0) (counts h)\<rparr>"

text \<open>
  Modelled from the spec: \<^verbatim>\<open>(*Histogram).Merge(from)\<close>, which sums the counts bucket by
  bucket.
\<close>

definition hist_Merge :: "Histogram \<Rightarrow> Histogram \<Rightarrow> Histogram" where
  "hist_Merge h from = h\<lparr>counts := map2 (+) (counts h) (counts from)\<rparr>"

text \<open>
  Modelled from the spec: \<^verbatim>\<open>(*Histogram).Distribution()\<close>, the bucket decomposition as
  bars: one bar per bucket, in ascending order of the bucket's bound, empty buckets
  included.
\<close>

definition hist_Distribution :: "Histogram \<Rightarrow> Bar list" where
  "hist_Distribution h =
     map (\<lambda>i. \<lparr>From = of_nat i, To = of_nat i, Count = of_nat (counts h ! i)\<rparr>)
       [0..<length (counts h)]"

text \<open>
  Modelled from the spec: \<^verbatim>\<open>(*Histogram).Mean()\<close>, the mean of the recorded values, and
  zero for a distribution without samples.
\<close>

definition hist_Mean :: "'f float64_ops \<Rightarrow> Histogram \<Rightarrow> 'f" where
  "hist_Mean ops h =
     (if hist_TotalCount h = 0 then f_zero ops
      else f_div ops
             (f_of_int ops (\<Sum>i \<leftarrow> [0..<length (counts h)]. int i * int (counts h ! i)))
             (f_of_int ops (hist_TotalCount h)))"

subsection \<open>The exposition record (prometheus/client_model)\<close>

record 'f prometheusgo_Bucket =
  CumulativeCount :: uint64
  UpperBound :: 'f

record 'f prometheusgo_Histogram =
  SampleCount :: uint64
  SampleSum :: 'f
  Bucket :: "'f prometheusgo_Bucket list"

text \<open>
  The loop over the bars, which \<^verbatim>\<open>ToPrometheusMetric\<close> (lines 166-183) and
  \<^verbatim>\<open>toPrometheusMetricWindowedLocked\<close> (lines 209-226) both contain, word for word. The
  state of the loop is \<^verbatim>\<open>cumCount\<close>, \<^verbatim>\<open>sum\<close> (here \<open>sumv\<close>) and \<^verbatim>\<open>hist.Bucket\<close>.
  \<^verbatim>\<open>uint64(bar.Count)\<close> keeps the 64 bits of the count.
\<close>

fun barsLoop ::
  "'f float64_ops \<Rightarrow> Bar list \<Rightarrow> uint64 \<Rightarrow> 'f \<Rightarrow> 'f prometheusgo_Bucket list \<Rightarrow>
   uint64 \<times> 'f \<times> 'f prometheusgo_Bucket list" where
  "barsLoop ops [] cumCount sumv buckets = (cumCount, sumv, buckets)"
| "barsLoop ops (bar # bars) cumCount sumv buckets =
     (if Count bar = 0 then barsLoop ops bars cumCount sumv buckets
      else
        let upperBound = f_of_int ops (sint (To bar));
            sumv' = f_add ops sumv (f_mul ops upperBound (f_of_int ops (sint (Count bar))));
            cumCount' = cumCount + Count bar
        in barsLoop ops bars cumCount' sumv'
             (buckets @ [\<lparr>CumulativeCount = cumCount', UpperBound = upperBound\<rparr>]))"

text \<open>The rest of both methods: the record built from the loop's final state.\<close>

definition barsToHistogram :: "'f float64_ops \<Rightarrow> Bar list \<Rightarrow> 'f prometheusgo_Histogram" where
  "barsToHistogram ops bars =
     (case barsLoop ops bars 0 (f_zero ops) [] of
        (cumCount, sumv, buckets) \<Rightarrow>
          \<lparr>SampleCount = cumCount, SampleSum = sumv, Bucket = buckets\<rparr>)"

subsection \<open>The ring of sub-windows (hdrhistogram.WindowedHistogram)\<close>

text \<open>
  Modelled from the spec: \<^verbatim>\<open>hdrhistogram.WindowedHistogram\<close>, the spec's WindowRing, is
  part of the same imported package. The spec describes it as a fixed-size array of
  distributions plus a current index; rotation advances the index and clears the slot that
  becomes current; merging folds the bucket-wise sum over all slots into a fresh transient
  distribution and mutates no slot. \<open>fresh\<close> is the empty distribution of the ring's
  configuration, from which a merge starts.
\<close>

record WindowedHistogram =
  slots :: "Histogram list"
  current :: nat
  fresh :: Histogram

text \<open>
  Modelled from the spec: \<^verbatim>\<open>hdrhistogram.NewWindowed(n, minValue, maxValue, sigfigs)\<close>, a
  ring of \<open>n\<close> empty distributions whose first slot is current.
\<close>

definition win_NewWindowed :: "nat \<Rightarrow> int64 \<Rightarrow> int64 \<Rightarrow> int \<Rightarrow> WindowedHistogram" where
  "win_NewWindowed n minValue maxValue sigfigs =
     \<lparr>slots = replicate n (hist_New minValue maxValue sigfigs), current = 0,
      fresh = hist_New minValue maxValue sigfigs\<rparr>"

text \<open>
  Modelled from the spec: the field \<^verbatim>\<open>Current\<close>, a pointer to the slot that takes the
  writes. \<open>win_Current\<close> reads through it and \<open>win_setCurrent\<close> writes through it.
\<close>

definition win_Current :: "WindowedHistogram \<Rightarrow> Histogram" where
  "win_Current w = slots w ! current w"

definition win_setCurrent :: "WindowedHistogram \<Rightarrow> Histogram \<Rightarrow> WindowedHistogram" where
  "win_setCurrent w c = w\<lparr>slots := (slots w)[current w := c]\<rparr>"

text \<open>
  Modelled from the spec: \<^verbatim>\<open>(*WindowedHistogram).Rotate()\<close>. The next slot becomes
  current and is cleared. A ring without slots has nothing to rotate; the constructor never
  builds one.
\<close>

definition win_Rotate :: "WindowedHistogram \<Rightarrow> WindowedHistogram" where
  "win_Rotate w =
     (if slots w = [] then w
      else
        let i = (current w + 1) mod length (slots w)
        in w\<lparr>current := i, slots := (slots w)[i := hist_Reset (slots w ! i)]\<rparr>)"

text \<open>
  Modelled from the spec: \<^verbatim>\<open>(*WindowedHistogram).Merge()\<close>, the fold of the bucket-wise
  sum over all slots, the current one included, into a fresh distribution.
\<close>

definition win_Merge :: "WindowedHistogram \<Rightarrow> Histogram" where
  "win_Merge w = foldl hist_Merge (hist_Reset (fresh w)) (slots w)"

subsection \<open>The ticker (pkg/util/metric/tick)\<close>

text \<open>
  Modelled from the spec: the package \<^verbatim>\<open>tick\<close> of this repository is not among the
  sources. The spec's TickGate keeps the time of the last rotation and the duration of a
  sub-window; a rotation is due iff \<open>now - lastRotation \<ge> subWindowDuration\<close>; a tick
  rotates once and sets \<open>lastRotation\<close> to \<open>now\<close>; the check ticks at most once per
  call. The first argument of \<^verbatim>\<open>tick.NewTicker\<close> is the time the ticker starts from.
\<close>

record Ticker =
  lastRotation :: time
  tickInterval :: duration

text \<open>Modelled from the spec: \<^verbatim>\<open>tick.NewTicker\<close>, without the closure (see \<open>ticker_Tick\<close>).\<close>

definition tick_NewTicker :: "time \<Rightarrow> duration \<Rightarrow> Ticker" where
  "tick_NewTicker t d = \<lparr>lastRotation = t, tickInterval = d\<rparr>"

text \<open>Modelled from the spec: \<open>TickGate.isDue(now, lastRotation, subWindowDuration)\<close>.\<close>

definition isDue :: "time \<Rightarrow> time \<Rightarrow> duration \<Rightarrow> bool" where
  "isDue now lastRot subWindowDuration = (subWindowDuration \<le> now - lastRot)"

subsection \<open>HdrHistogram\<close>

text \<open>
  Modelled from the spec: the constant \<^verbatim>\<open>WindowedHistogramWrapNum\<close> is declared in
  another file of the package, not among the sources; the spec gives the ring size \<open>W\<close>
  as a fixed constant, for example 2, and its scenarios use \<open>W = 2\<close>.
\<close>

definition WindowedHistogramWrapNum :: nat where
  "WindowedHistogramWrapNum = 2"

text \<open>\<^verbatim>\<open>Metadata\<close> is passed through unchanged; the model keeps its name.\<close>

type_synonym Metadata = string

text \<open>The struct of lines 37-46; the fields under \<^verbatim>\<open>mu\<close> are the guarded state.\<close>

record HdrHistogram =
  Metadata :: Metadata
  maxVal :: int64
  cumulative :: Histogram
  ticker :: Ticker
  sliding :: WindowedHistogram

text \<open>
  Lines 56-73. \<open>now\<close> is the clock reading of line 67. Go's division of a duration
  truncates towards zero.
\<close>

definition NewHdrHistogram ::
  "time \<Rightarrow> Metadata \<Rightarrow> duration \<Rightarrow> int64 \<Rightarrow> int \<Rightarrow> HdrHistogram" where
  "NewHdrHistogram now metadata dur maxVal' sigFigs =
     \<lparr>Metadata = metadata, maxVal = maxVal',
      cumulative = hist_New 0 maxVal' sigFigs,
      ticker = tick_NewTicker now (dur sdiv int WindowedHistogramWrapNum),
      sliding = win_NewWindowed WindowedHistogramWrapNum 0 maxVal' sigFigs\<rparr>"

text \<open>
  Modelled from the spec: \<^verbatim>\<open>(*Ticker).Tick()\<close>, which sets the time of the last rotation
  to \<open>now\<close> and runs the closure. The closure is the one that lines 69-71 install: it
  rotates the ring \<^verbatim>\<open>wHist\<close>, which is \<^verbatim>\<open>h.mu.sliding\<close>.
\<close>

definition ticker_Tick :: "time \<Rightarrow> HdrHistogram \<Rightarrow> HdrHistogram" where
  "ticker_Tick now h =
     h\<lparr>ticker := (ticker h)\<lparr>lastRotation := now\<rparr>, sliding := win_Rotate (sliding h)\<rparr>"

text \<open>
  Modelled from the spec: \<^verbatim>\<open>tick.MaybeTick(h.mu.Ticker)\<close>, the lazy rotation check: one
  tick if a rotation is due, nothing otherwise.
\<close>

definition tick_MaybeTick :: "time \<Rightarrow> HdrHistogram \<Rightarrow> HdrHistogram" where
  "tick_MaybeTick now h =
     (if isDue now (lastRotation (ticker h)) (tickInterval (ticker h))
      then ticker_Tick now h else h)"

text \<open>
  Lines 91-101. \<open>recordOrMax\<close> is the statement that the method executes twice, on the
  current slot of the ring (lines 95-97) and on the cumulative distribution (lines 98-100):
  a non-nil error of the first attempt leads to the second attempt with \<^verbatim>\<open>h.maxVal\<close>,
  whose error is dropped.
\<close>

definition recordOrMax :: "Histogram \<Rightarrow> int64 \<Rightarrow> int64 \<Rightarrow> Histogram" where
  "recordOrMax d v maxVal' =
     (case hist_RecordValue d v of
        Some d' \<Rightarrow> d'
      | None \<Rightarrow> (case hist_RecordValue d maxVal' of Some d' \<Rightarrow> d' | None \<Rightarrow> d))"

definition RecordValue :: "int64 \<Rightarrow> HdrHistogram \<Rightarrow> HdrHistogram" where
  "RecordValue v h =
     h\<lparr>sliding := win_setCurrent (sliding h) (recordOrMax (win_Current (sliding h)) v (maxVal h)),
       cumulative := recordOrMax (cumulative h) v (maxVal h)\<rparr>"

text \<open>Lines 104-109, the method \<^verbatim>\<open>Total\<close>.\<close>

definition Total' :: "'f float64_ops \<Rightarrow> HdrHistogram \<Rightarrow> int \<times> 'f" where
  "Total' ops h =
     (let totalSum = f_mul ops (f_of_int ops (hist_TotalCount (cumulative h)))
                       (hist_Mean ops (cumulative h))
      in (hist_TotalCount (cumulative h), totalSum))"

text \<open>
  Lines 119-126. The closure \<open>f\<close> receives the histogram after the rotation check; its
  effect on the histogram is the function \<open>f\<close>.
\<close>

definition Inspect :: "time \<Rightarrow> (HdrHistogram \<Rightarrow> HdrHistogram) \<Rightarrow> HdrHistogram \<Rightarrow> HdrHistogram" where
  "Inspect now f h = f (tick_MaybeTick now h)"

text \<open>Lines 143-147.\<close>

definition Tick :: "time \<Rightarrow> HdrHistogram \<Rightarrow> HdrHistogram" where
  "Tick now h = ticker_Tick now h"

text \<open>Lines 155-190. The result is the exposition record and the state the call leaves.\<close>

definition ToPrometheusMetric ::
  "'f float64_ops \<Rightarrow> time \<Rightarrow> HdrHistogram \<Rightarrow> 'f prometheusgo_Histogram \<times> HdrHistogram" where
  "ToPrometheusMetric ops now h =
     (let h' = tick_MaybeTick now h;
          bars = hist_Distribution (cumulative h')
      in (barsToHistogram ops bars, h'))"

text \<open>
  Lines 193-199. The method does not call \<^verbatim>\<open>tick.MaybeTick\<close>; the merged distribution
  is transient, so the method leaves the state as it is.
\<close>

definition TotalWindowed :: "'f float64_ops \<Rightarrow> HdrHistogram \<Rightarrow> int \<times> 'f" where
  "TotalWindowed ops h =
     (let hist = win_Merge (sliding h);
          totalSum = f_mul ops (f_of_int ops (hist_TotalCount hist)) (hist_Mean ops hist)
      in (hist_TotalCount hist, totalSum))"

text \<open>Lines 201-232.\<close>

definition toPrometheusMetricWindowedLocked ::
  "'f float64_ops \<Rightarrow> time \<Rightarrow> HdrHistogram \<Rightarrow> 'f prometheusgo_Histogram \<times> HdrHistogram" where
  "toPrometheusMetricWindowedLocked ops now h =
     (let h' = tick_MaybeTick now h;
          mergedHist = win_Merge (sliding h');
          bars = hist_Distribution mergedHist
      in (barsToHistogram ops bars, h'))"

text \<open>Lines 236-240.\<close>

definition ToPrometheusMetricWindowed ::
  "'f float64_ops \<Rightarrow> time \<Rightarrow> HdrHistogram \<Rightarrow> 'f prometheusgo_Histogram \<times> HdrHistogram" where
  "ToPrometheusMetricWindowed ops now h = toPrometheusMetricWindowedLocked ops now h"

text \<open>Lines 254-258 and 260-265. \<^verbatim>\<open>MeanWindowed\<close> does not call \<^verbatim>\<open>tick.MaybeTick\<close> either.\<close>

definition Mean :: "'f float64_ops \<Rightarrow> HdrHistogram \<Rightarrow> 'f" where
  "Mean ops h = hist_Mean ops (cumulative h)"

definition MeanWindowed :: "'f float64_ops \<Rightarrow> HdrHistogram \<Rightarrow> 'f" where
  "MeanWindowed ops h = (let hist = win_Merge (sliding h) in hist_Mean ops hist)"

text \<open>
  Modelled from the spec: the package's function \<^verbatim>\<open>ValueAtQuantileWindowed(histogram, q)\<close>
  is declared in another file of the package, not among the sources. By the spec (4.5) it
  locates the first bucket whose fraction \<open>cumulativeCount / sampleCount\<close> is at least
  \<open>q\<close> and returns that bucket's upper bound, and returns zero when the sample count is
  zero. The quantile and the fraction are compared as exact numbers. Where no bucket
  reaches \<open>q\<close> the model returns zero.
\<close>

definition metric_ValueAtQuantileWindowed ::
  "'f float64_ops \<Rightarrow> 'f prometheusgo_Histogram \<Rightarrow> real \<Rightarrow> 'f" where
  "metric_ValueAtQuantileWindowed ops histogram q =
     (if SampleCount histogram = 0 then f_zero ops
      else
        case find (\<lambda>b. q \<le> real (unat (CumulativeCount b)) / real (unat (SampleCount histogram)))
               (Bucket histogram) of
          Some b \<Rightarrow> UpperBound b
        | None \<Rightarrow> f_zero ops)"

text \<open>
  Lines 250-252: the method hands the exposition record \<^verbatim>\<open>window.Histogram\<close> and the
  quantile to the package's function.
\<close>

definition ValueAtQuantileWindowed ::
  "'f float64_ops \<Rightarrow> real \<Rightarrow> 'f prometheusgo_Histogram \<Rightarrow> 'f" where
  "ValueAtQuantileWindowed ops q window = metric_ValueAtQuantileWindowed ops window q"

subsection \<open>The spec's wording of three operations, for comparison with the code\<close>

text \<open>
  The spec (4.6) has \<^verbatim>\<open>TotalWindowed\<close> and \<^verbatim>\<open>MeanWindowed\<close> trigger the lazy rotation
  check first and then merge the ring. These definitions follow those words; the methods
  of the code are \<open>TotalWindowed\<close> and \<open>MeanWindowed\<close> above.
\<close>

definition TotalWindowed_spec :: "'f float64_ops \<Rightarrow> time \<Rightarrow> HdrHistogram \<Rightarrow> int \<times> 'f" where
  "TotalWindowed_spec ops now h = TotalWindowed ops (tick_MaybeTick now h)"

definition MeanWindowed_spec :: "'f float64_ops \<Rightarrow> time \<Rightarrow> HdrHistogram \<Rightarrow> 'f" where
  "MeanWindowed_spec ops now h = MeanWindowed ops (tick_MaybeTick now h)"


subsection \<open>Well-formed states and bars\<close>

text \<open>
  A distribution configured for the ceiling \<open>mv\<close>: it tracks values up to \<open>mv\<close> and
  has one bucket for each of them.
\<close>

definition hist_wf :: "int64 \<Rightarrow> Histogram \<Rightarrow> bool" where
  "hist_wf mv d = (highestTrackableValue d = mv \<and> length (counts d) = nat (sint mv + 1))"

text \<open>
  The states the constructor builds and the methods keep: the cumulative distribution and
  every slot of the ring are configured for \<open>maxVal\<close>, the ring has
  \<^verbatim>\<open>WindowedHistogramWrapNum\<close> slots, and the current index points into the ring.
\<close>

definition hdr_wf :: "HdrHistogram \<Rightarrow> bool" where
  "hdr_wf h =
     (hist_wf (maxVal h) (cumulative h) \<and>
      list_all (hist_wf (maxVal h)) (slots (sliding h)) \<and>
      hist_wf (maxVal h) (fresh (sliding h)) \<and>
      length (slots (sliding h)) = WindowedHistogramWrapNum \<and>
      current (sliding h) < length (slots (sliding h)))"

text \<open>
  What a distribution hands to the encoder: bars in ascending order of their bound, with
  counts whose total fits \<^verbatim>\<open>uint64\<close>.
\<close>

definition wellFormedBars :: "Bar list \<Rightarrow> bool" where
  "wellFormedBars bars =
     (sorted_wrt (<) (map (\<lambda>bar. sint (To bar)) bars) \<and>
      sum_list (map (\<lambda>bar. unat (Count bar)) bars) < 2 ^ 64)"

subsection \<open>The encoder's result in closed form\<close>

text \<open>
  The buckets the loop appends, as a function of the bars it does not skip: each carries
  the running count, which starts from \<open>c\<close>.
\<close>

fun cumBuckets :: "'f float64_ops \<Rightarrow> uint64 \<Rightarrow> Bar list \<Rightarrow> 'f prometheusgo_Bucket list" where
  "cumBuckets ops c [] = []"
| "cumBuckets ops c (bar # bars) =
     \<lparr>CumulativeCount = c + Count bar, UpperBound = f_of_int ops (sint (To bar))\<rparr>
       # cumBuckets ops (c + Count bar) bars"

definition barSum :: "'f float64_ops \<Rightarrow> 'f \<Rightarrow> Bar \<Rightarrow> 'f" where
  "barSum ops s bar =
     f_add ops s (f_mul ops (f_of_int ops (sint (To bar))) (f_of_int ops (sint (Count bar))))"

section \<open>The exposition encoder\<close>

lemma barsLoop_eq:
  "barsLoop ops bars c s bs =
     (c + sum_list (map Count (filter (\<lambda>bar. Count bar \<noteq> 0) bars)),
      foldl (barSum ops) s (filter (\<lambda>bar. Count bar \<noteq> 0) bars),
      bs @ cumBuckets ops c (filter (\<lambda>bar. Count bar \<noteq> 0) bars))"
  by (induction bars arbitrary: c s bs) (simp_all add: barSum_def Let_def add.assoc)

lemma barsToHistogram_eq:
  "barsToHistogram ops bars =
     \<lparr>SampleCount = sum_list (map Count (filter (\<lambda>bar. Count bar \<noteq> 0) bars)),
      SampleSum = foldl (barSum ops) (f_zero ops) (filter (\<lambda>bar. Count bar \<noteq> 0) bars),
      Bucket = cumBuckets ops 0 (filter (\<lambda>bar. Count bar \<noteq> 0) bars)\<rparr>"
  by (simp add: barsToHistogram_def barsLoop_eq)

lemma map_UpperBound_cumBuckets:
  "map UpperBound (cumBuckets ops c bs) = map (\<lambda>bar. f_of_int ops (sint (To bar))) bs"
  by (induction bs arbitrary: c) simp_all

lemma map_CumulativeCount_cumBuckets:
  "map CumulativeCount (cumBuckets ops c bs) =
     map (\<lambda>k. c + sum_list (map Count (take (Suc k) bs))) [0..<length bs]"
proof (induction bs arbitrary: c)
  case Nil
  then show ?case by simp
next
  case (Cons b bs)
  have "[0..<length (b # bs)] = 0 # map Suc [0..<length bs]"
    by (simp add: upt_conv_Cons map_Suc_upt del: upt_Suc)
  then show ?case using Cons.IH [of "c + Count b"]
    by (simp add: comp_def add.assoc del: upt_Suc)
qed

lemma foldl_barSum_exact:
  "foldl (barSum exact_ops) s bs =
     s + (\<Sum>bar \<leftarrow> bs. real_of_int (sint (To bar)) * real_of_int (sint (Count bar)))"
  by (induction bs arbitrary: s) (simp_all add: barSum_def exact_ops_def)

section \<open>Invariants of the state\<close>


lemma hist_wf_Reset: "hist_wf mv d \<Longrightarrow> hist_wf mv (hist_Reset d)"
  by (simp add: hist_wf_def hist_Reset_def)

lemma hist_wf_Merge: "hist_wf mv d \<Longrightarrow> hist_wf mv e \<Longrightarrow> hist_wf mv (hist_Merge d e)"
  by (simp add: hist_wf_def hist_Merge_def)




lemma list_all_update: "list_all P xs \<Longrightarrow> P y \<Longrightarrow> list_all P (xs[i := y])"
  by (induction xs arbitrary: i) (auto split: nat.splits)

lemma list_all_nth: "list_all P xs \<Longrightarrow> i < length xs \<Longrightarrow> P (xs ! i)"
  by (simp add: list_all_length)


lemma hdr_wf_ticker_Tick: "hdr_wf h \<Longrightarrow> hdr_wf (ticker_Tick now h)"
  by (auto simp: hdr_wf_def ticker_Tick_def win_Rotate_def Let_def
      list_all_update list_all_nth hist_wf_Reset)

lemma hdr_wf_MaybeTick: "hdr_wf h \<Longrightarrow> hdr_wf (tick_MaybeTick now h)"
  by (simp add: tick_MaybeTick_def hdr_wf_ticker_Tick)

lemma hdr_wf_Tick: "hdr_wf h \<Longrightarrow> hdr_wf (Tick now h)"
  by (simp add: Tick_def hdr_wf_ticker_Tick)

lemma hdr_wf_Inspect:
  "hdr_wf h \<Longrightarrow> (\<And>h'. hdr_wf h' \<Longrightarrow> hdr_wf (f h')) \<Longrightarrow> hdr_wf (Inspect now f h)"
  by (simp add: Inspect_def hdr_wf_MaybeTick)

lemma hdr_wf_ToPrometheusMetric: "hdr_wf h \<Longrightarrow> hdr_wf (snd (ToPrometheusMetric ops now h))"
  by (simp add: ToPrometheusMetric_def Let_def hdr_wf_MaybeTick)

lemma hdr_wf_ToPrometheusMetricWindowed:
  "hdr_wf h \<Longrightarrow> hdr_wf (snd (ToPrometheusMetricWindowed ops now h))"
  by (simp add: ToPrometheusMetricWindowed_def toPrometheusMetricWindowedLocked_def Let_def
      hdr_wf_MaybeTick)







lemma sum_list_map2_add:
  "length xs = length ys \<Longrightarrow> sum_list (map2 (+) xs ys) = sum_list xs + (sum_list ys :: nat)"
  by (induction xs ys rule: list_induct2) simp_all

lemma hist_TotalCount_Merge:
  "hist_wf mv d \<Longrightarrow> hist_wf mv e \<Longrightarrow> hist_TotalCount (hist_Merge d e) = hist_TotalCount d + hist_TotalCount e"
  by (simp add: hist_wf_def hist_Merge_def hist_TotalCount_def sum_list_map2_add)

lemma hist_TotalCount_Reset: "hist_TotalCount (hist_Reset d) = 0"
  by (simp add: hist_TotalCount_def hist_Reset_def)

lemma foldl_Merge:
  "hist_wf mv d \<Longrightarrow> list_all (hist_wf mv) ss \<Longrightarrow>
     hist_wf mv (foldl hist_Merge d ss) \<and>
     hist_TotalCount (foldl hist_Merge d ss) = hist_TotalCount d + sum_list (map hist_TotalCount ss)"
  by (induction ss arbitrary: d) (simp_all add: hist_wf_Merge hist_TotalCount_Merge)

lemma win_Merge_total:
  "hdr_wf h \<Longrightarrow> hist_TotalCount (win_Merge (sliding h)) = sum_list (map hist_TotalCount (slots (sliding h)))"
  using foldl_Merge [of "maxVal h" "hist_Reset (fresh (sliding h))" "slots (sliding h)"]
  by (simp add: hdr_wf_def win_Merge_def hist_wf_Reset hist_TotalCount_Reset)

lemma win_Merge_wf:
  "hdr_wf h \<Longrightarrow> hist_wf (maxVal h) (win_Merge (sliding h))"
  using foldl_Merge [of "maxVal h" "hist_Reset (fresh (sliding h))" "slots (sliding h)"]
  by (simp add: hdr_wf_def win_Merge_def hist_wf_Reset)

lemma sint_of_nat_small: "n < 2 ^ 63 \<Longrightarrow> sint (of_nat n :: int64) = int n"
  by (simp add: signed_of_nat signed_take_bit_int_eq_self)

lemma unat_of_nat_small: "n < 2 ^ 64 \<Longrightarrow> unat (of_nat n :: uint64) = n"
  by (simp add: unat_of_nat)

lemma hist_wf_length: "hist_wf mv d \<Longrightarrow> length (counts d) \<le> 2 ^ 63"
proof -
  assume "hist_wf mv d"
  then have "length (counts d) = nat (sint mv + 1)" by (simp add: hist_wf_def)
  moreover have "sint mv < 2 ^ 63" using sint_lt [of mv] by simp
  ultimately show ?thesis by (simp add: nat_le_iff)
qed

lemma To_Distribution:
  assumes "hist_wf mv d"
  shows "map (\<lambda>bar. sint (To bar)) (hist_Distribution d) = map int [0..<length (counts d)]"
proof -
  have "\<And>i. i < length (counts d) \<Longrightarrow> sint (of_nat i :: int64) = int i"
    using hist_wf_length [OF assms] by (intro sint_of_nat_small) linarith
  then show ?thesis by (simp add: hist_Distribution_def comp_def)
qed

lemma member_le_sum_list_nat: "(x::nat) \<in> set xs \<Longrightarrow> x \<le> sum_list xs"
  by (induction xs) auto

lemma Count_Distribution:
  assumes "sum_list (counts d) < 2 ^ 64"
  shows "map (\<lambda>bar. unat (Count bar)) (hist_Distribution d) = counts d"
proof -
  have "\<And>i. i < length (counts d) \<Longrightarrow> unat (of_nat (counts d ! i) :: uint64) = counts d ! i"
  proof -
    fix i assume "i < length (counts d)"
    then have "counts d ! i \<le> sum_list (counts d)"
      by (intro member_le_sum_list_nat) simp
    then show "unat (of_nat (counts d ! i) :: uint64) = counts d ! i"
      using assms by (intro unat_of_nat_small) linarith
  qed
  then have "map (\<lambda>bar. unat (Count bar)) (hist_Distribution d) = map (\<lambda>i. counts d ! i) [0..<length (counts d)]"
    by (simp add: hist_Distribution_def comp_def)
  then show ?thesis by (simp add: map_nth)
qed

lemma sorted_wrt_int_upt: "sorted_wrt (<) (map int [0..<n])"
  by (simp add: sorted_wrt_map sorted_wrt_iff_nth_less)

lemma wellFormedBars_Distribution:
  assumes "hist_wf mv d" "hist_TotalCount d < 2 ^ 64"
  shows "wellFormedBars (hist_Distribution d)"
proof -
  have "sum_list (counts d) < 2 ^ 64"
    using assms(2) by (simp add: hist_TotalCount_def)
  then show ?thesis
    by (simp add: wellFormedBars_def To_Distribution [OF assms(1)] Count_Distribution sorted_wrt_int_upt)
qed

lemma cumBuckets_increasing:
  assumes "\<forall>bar \<in> set bs. Count bar \<noteq> 0"
    and "unat c + sum_list (map (\<lambda>bar. unat (Count bar)) bs) < 2 ^ 64"
  shows "sorted_wrt (<) (map (\<lambda>b. unat (CumulativeCount b)) (cumBuckets ops c bs)) \<and>
         (\<forall>b \<in> set (cumBuckets ops c bs). unat c < unat (CumulativeCount b))"
  using assms
proof (induction bs arbitrary: c)
  case Nil
  then show ?case by simp
next
  case (Cons bar bs)
  have nz: "0 < unat (Count bar)"
    using Cons.prems(1) by (simp add: unat_gt_0)
  have "unat c + unat (Count bar) < 2 ^ 64"
    using Cons.prems(2) by simp
  then have step: "unat (c + Count bar) = unat c + unat (Count bar)"
    using unat_add_lem [of c "Count bar"] by simp
  have "sorted_wrt (<) (map (\<lambda>b. unat (CumulativeCount b)) (cumBuckets ops (c + Count bar) bs)) \<and>
        (\<forall>b \<in> set (cumBuckets ops (c + Count bar) bs). unat (c + Count bar) < unat (CumulativeCount b))"
    using Cons.prems step by (intro Cons.IH) simp_all
  then show ?case using step nz by auto
qed

lemma cumBuckets_last_Cons:
  "CumulativeCount (last (cumBuckets ops c (bar # bs))) = c + Count bar + sum_list (map Count bs)"
proof (induction bs arbitrary: c bar)
  case Nil
  then show ?case by simp
next
  case (Cons b bs)
  have "CumulativeCount (last (cumBuckets ops c (bar # b # bs))) =
        CumulativeCount (last (cumBuckets ops (c + Count bar) (b # bs)))"
    by simp
  also have "\<dots> = c + Count bar + Count b + sum_list (map Count bs)"
    by (rule Cons.IH)
  finally show ?case by (simp add: add.assoc)
qed

lemma cumBuckets_last:
  "CumulativeCount (last (cumBuckets ops c bs)) = c + sum_list (map Count bs)" if "bs \<noteq> []"
proof (cases bs)
  case Nil
  then show ?thesis using that by simp
next
  case (Cons bar bs')
  show ?thesis unfolding Cons cumBuckets_last_Cons by (simp add: add.assoc)
qed

lemma cumBuckets_Nil_iff: "cumBuckets ops c bs = [] \<longleftrightarrow> bs = []"
  by (cases bs) simp_all

lemma sum_list_filter_unat:
  "sum_list (map (\<lambda>bar. unat (Count bar)) (filter (\<lambda>bar. Count bar \<noteq> 0) bars)) =
   sum_list (map (\<lambda>bar. unat (Count bar)) bars)"
  by (induction bars) simp_all

lemma unat_sum_list_Count:
  "sum_list (map (\<lambda>bar. unat (Count bar)) bs) < 2 ^ 64 \<Longrightarrow>
   unat (sum_list (map Count bs) :: uint64) = sum_list (map (\<lambda>bar. unat (Count bar)) bs)"
proof (induction bs)
  case Nil
  then show ?case by simp
next
  case (Cons bar bs)
  then have ih: "unat (sum_list (map Count bs)) = sum_list (map (\<lambda>bar. unat (Count bar)) bs)"
    by simp
  have "unat (Count bar) + unat (sum_list (map Count bs)) < 2 ^ 64"
    using Cons.prems ih by simp
  then show ?case using unat_add_lem [of "Count bar" "sum_list (map Count bs)"] ih by simp
qed

lemma exposition_wellFormed:
  fixes ops :: "'f float64_ops"
  assumes "wellFormedBars bars"
    and "\<forall>a b. a < b \<longrightarrow> R (f_of_int ops a) (f_of_int ops b)"
  defines "H \<equiv> barsToHistogram ops bars"
  shows "sorted_wrt R (map UpperBound (Bucket H))"
    and "sorted_wrt (<) (map (\<lambda>b. unat (CumulativeCount b)) (Bucket H))"
    and "Bucket H \<noteq> [] \<Longrightarrow> CumulativeCount (last (Bucket H)) = SampleCount H"
    and "Bucket H = [] \<Longrightarrow> SampleCount H = 0"
    and "unat (SampleCount H) = sum_list (map (\<lambda>bar. unat (Count bar)) bars)"
    and "\<forall>b \<in> set (Bucket H). 0 < unat (CumulativeCount b)"
proof -
  let ?E = "filter (\<lambda>bar. Count bar \<noteq> 0) bars"
  have tot: "sum_list (map (\<lambda>bar. unat (Count bar)) ?E) < 2 ^ 64"
    using assms(1) by (simp add: wellFormedBars_def sum_list_filter_unat)
  have "sorted_wrt (<) (map (\<lambda>bar. sint (To bar)) ?E)"
    using assms(1) by (simp add: wellFormedBars_def sorted_wrt_map sorted_wrt_filter)
  then have "sorted_wrt (\<lambda>x y. sint (To x) < sint (To y)) ?E"
    by (simp add: sorted_wrt_map)
  then have "sorted_wrt (\<lambda>x y. R (f_of_int ops (sint (To x))) (f_of_int ops (sint (To y)))) ?E"
    by (rule sorted_wrt_mono_rel [rotated]) (use assms(2) in blast)
  then show "sorted_wrt R (map UpperBound (Bucket H))"
    by (simp add: H_def barsToHistogram_eq map_UpperBound_cumBuckets sorted_wrt_map)
  have inc: "sorted_wrt (<) (map (\<lambda>b. unat (CumulativeCount b)) (cumBuckets ops 0 ?E)) \<and>
         (\<forall>b \<in> set (cumBuckets ops 0 ?E). unat (0::uint64) < unat (CumulativeCount b))"
    using tot by (intro cumBuckets_increasing) simp_all
  then show "sorted_wrt (<) (map (\<lambda>b. unat (CumulativeCount b)) (Bucket H))"
    by (simp add: H_def barsToHistogram_eq)
  show "\<forall>b \<in> set (Bucket H). 0 < unat (CumulativeCount b)"
    using inc by (simp add: H_def barsToHistogram_eq)
  show "Bucket H \<noteq> [] \<Longrightarrow> CumulativeCount (last (Bucket H)) = SampleCount H"
    by (simp add: H_def barsToHistogram_eq cumBuckets_Nil_iff cumBuckets_last)
  show "Bucket H = [] \<Longrightarrow> SampleCount H = 0"
    by (simp add: H_def barsToHistogram_eq cumBuckets_Nil_iff)
  show "unat (SampleCount H) = sum_list (map (\<lambda>bar. unat (Count bar)) bars)"
    using unat_sum_list_Count [OF tot] by (simp add: H_def barsToHistogram_eq sum_list_filter_unat)
qed

section \<open>Properties of the methods\<close>

subsection \<open>The bucket loop\<close>

text \<open>
  C5. For every sequence of bars, the encoder emits one bucket for each bar whose count is
  not zero, in the order of the bars, and none for a bar whose count is zero: the upper
  bounds of the buckets are the converted \<^verbatim>\<open>To\<close> fields of exactly those bars, and the
  \<open>k\<close>-th cumulative count is the \<^verbatim>\<open>uint64\<close> sum of their first \<open>k + 1\<close> counts. The
  sample count is the sum of their counts. The sample sum is the sum, accumulated from zero
  in the order of the bars, of upper bound times count over those bars, in whatever
  arithmetic \<^verbatim>\<open>float64\<close> has; in exact arithmetic it is the sum
  \<open>\<Sum> upperBound * count\<close> over the emitted bars.
\<close>

theorem C5_encoder_emits_nonzero_bars:
  fixes ops :: "'f float64_ops" and bars :: "Bar list"
  defines "emitted \<equiv> filter (\<lambda>bar. Count bar \<noteq> 0) bars"
  shows "map UpperBound (Bucket (barsToHistogram ops bars)) =
           map (\<lambda>bar. f_of_int ops (sint (To bar))) emitted
       \<and> map CumulativeCount (Bucket (barsToHistogram ops bars)) =
           map (\<lambda>k. sum_list (map Count (take (Suc k) emitted))) [0..<length emitted]
       \<and> SampleCount (barsToHistogram ops bars) = sum_list (map Count emitted)
       \<and> SampleSum (barsToHistogram ops bars) =
           foldl (\<lambda>s bar. f_add ops s
                    (f_mul ops (f_of_int ops (sint (To bar))) (f_of_int ops (sint (Count bar)))))
             (f_zero ops) emitted
       \<and> SampleSum (barsToHistogram exact_ops bars) =
           (\<Sum>bar \<leftarrow> emitted. real_of_int (sint (To bar)) * real_of_int (sint (Count bar)))"
proof -
  have "barSum ops =
          (\<lambda>s bar. f_add ops s
             (f_mul ops (f_of_int ops (sint (To bar))) (f_of_int ops (sint (Count bar)))))"
    by (rule ext, rule ext) (simp add: barSum_def)
  then have "SampleSum (barsToHistogram ops bars) =
           foldl (\<lambda>s bar. f_add ops s
                    (f_mul ops (f_of_int ops (sint (To bar))) (f_of_int ops (sint (Count bar)))))
             (f_zero ops) emitted"
    by (simp add: emitted_def barsToHistogram_eq)
  moreover have "SampleSum (barsToHistogram exact_ops bars) =
           (\<Sum>bar \<leftarrow> emitted. real_of_int (sint (To bar)) * real_of_int (sint (Count bar)))"
  proof -
    have "f_zero exact_ops = 0"
      by (simp add: exact_ops_def)
    then show ?thesis
      by (simp add: emitted_def barsToHistogram_eq foldl_barSum_exact)
  qed
  ultimately show ?thesis
    by (simp add: emitted_def barsToHistogram_eq map_UpperBound_cumBuckets
        map_CumulativeCount_cumBuckets)
qed

subsection \<open>Recording\<close>









subsection \<open>Exports\<close>

lemma MaybeTick_cumulative: "cumulative (tick_MaybeTick now h) = cumulative h"
  by (simp add: tick_MaybeTick_def ticker_Tick_def)

lemma MaybeTick_maxVal: "maxVal (tick_MaybeTick now h) = maxVal h"
  by (simp add: tick_MaybeTick_def ticker_Tick_def)

lemma hist_TotalCount_nonneg: "0 \<le> hist_TotalCount d"
  by (simp add: hist_TotalCount_def)

lemma sum_list_update_zero:
  "i < length xs \<Longrightarrow> hist_TotalCount y = 0 \<Longrightarrow>
   sum_list (map hist_TotalCount (xs[i := y])) \<le> sum_list (map hist_TotalCount xs)"
  by (induction xs arbitrary: i) (auto simp: hist_TotalCount_nonneg split: nat.splits)

lemma Rotate_total_le:
  "sum_list (map hist_TotalCount (slots (win_Rotate w))) \<le> sum_list (map hist_TotalCount (slots w))"
  by (simp add: win_Rotate_def Let_def sum_list_update_zero hist_TotalCount_Reset)

lemma MaybeTick_windowed_le:
  "sum_list (map hist_TotalCount (slots (sliding (tick_MaybeTick now h)))) \<le>
   sum_list (map hist_TotalCount (slots (sliding h)))"
  by (simp add: tick_MaybeTick_def ticker_Tick_def Rotate_total_le)

lemma TotalWindowed_count:
  "hdr_wf h \<Longrightarrow> fst (TotalWindowed ops h) = sum_list (map hist_TotalCount (slots (sliding h)))"
  by (simp add: TotalWindowed_def Let_def win_Merge_total)

text \<open>
  C4. In the exposition record of \<^verbatim>\<open>ToPrometheusMetric\<close> and of its windowed variant,
  for a histogram whose cumulative and windowed counts are within \<^verbatim>\<open>int64\<close>: the upper
  bounds of the buckets ascend, in any order \<open>R\<close> of \<^verbatim>\<open>float64\<close> that the conversion
  from integers respects; the cumulative counts do not decrease along the list; and the last
  bucket's cumulative count is the record's sample count.
\<close>

theorem C4_exposition_buckets_are_cumulative:
  fixes ops :: "'f float64_ops"
  assumes "hdr_wf h"
    and "fst (Total' ops h) < 2 ^ 63"
    and "fst (TotalWindowed ops h) < 2 ^ 63"
    and "\<forall>a b. a < b \<longrightarrow> R (f_of_int ops a) (f_of_int ops b)"
    and "H = fst (ToPrometheusMetric ops now h) \<or> H = fst (ToPrometheusMetricWindowed ops now h)"
  shows "sorted_wrt R (map UpperBound (Bucket H)) \<and>
         sorted_wrt (\<le>) (map (\<lambda>b. unat (CumulativeCount b)) (Bucket H)) \<and>
         (Bucket H \<noteq> [] \<longrightarrow> CumulativeCount (last (Bucket H)) = SampleCount H)"
proof -
  let ?h' = "tick_MaybeTick now h"
  have wf': "hdr_wf ?h'"
    using assms(1) by (rule hdr_wf_MaybeTick)
  have "hist_TotalCount (cumulative ?h') < 2 ^ 64"
    using assms(2) by (simp add: Total'_def Let_def MaybeTick_cumulative)
  moreover have "hist_wf (maxVal ?h') (cumulative ?h')"
    using wf' by (simp add: hdr_wf_def)
  ultimately have cum: "wellFormedBars (hist_Distribution (cumulative ?h'))"
    by (rule wellFormedBars_Distribution [rotated])
  have "hist_TotalCount (win_Merge (sliding ?h')) \<le> fst (TotalWindowed ops h)"
    using assms(1) wf' by (simp add: TotalWindowed_count win_Merge_total MaybeTick_windowed_le)
  then have "hist_TotalCount (win_Merge (sliding ?h')) < 2 ^ 64"
    using assms(3) by simp
  then have win: "wellFormedBars (hist_Distribution (win_Merge (sliding ?h')))"
    using win_Merge_wf [OF wf'] by (rule wellFormedBars_Distribution [rotated])
  obtain bars where H: "H = barsToHistogram ops bars" and bars: "wellFormedBars bars"
    using assms(5) cum win
    by (auto simp: ToPrometheusMetric_def ToPrometheusMetricWindowed_def
        toPrometheusMetricWindowedLocked_def Let_def)
  have "sorted_wrt (<) (map (\<lambda>b. unat (CumulativeCount b)) (Bucket H))"
    unfolding H using bars assms(4) by (rule exposition_wellFormed(2))
  then have "sorted_wrt (\<le>) (map (\<lambda>b. unat (CumulativeCount b)) (Bucket H))"
    by (rule sorted_wrt_mono_rel [rotated]) simp
  moreover have "sorted_wrt R (map UpperBound (Bucket H))"
    unfolding H using bars assms(4) by (rule exposition_wellFormed(1))
  moreover have "Bucket H \<noteq> [] \<longrightarrow> CumulativeCount (last (Bucket H)) = SampleCount H"
    unfolding H using exposition_wellFormed(3) [OF bars assms(4)] by blast
  ultimately show ?thesis by blast
qed


text \<open>
  The theorem at a histogram with ceiling 3 after the calls with 1, 7 and -1, exported at
  time 10 in exact arithmetic: two buckets, with bounds 1 and 3 and cumulative counts 1
  and 3, from the cumulative distribution and from the ring alike.
\<close>

theorem C4_witness:
  "hdr_wf (foldl (\<lambda>h v. RecordValue v h) (NewHdrHistogram 0 ''latency'' 100 3 1) [1, 7, - 1]) \<and>
   fst (Total' exact_ops
     (foldl (\<lambda>h v. RecordValue v h) (NewHdrHistogram 0 ''latency'' 100 3 1) [1, 7, - 1])) < 2 ^ 63 \<and>
   fst (TotalWindowed exact_ops
     (foldl (\<lambda>h v. RecordValue v h) (NewHdrHistogram 0 ''latency'' 100 3 1) [1, 7, - 1])) < 2 ^ 63 \<and>
   fst (ToPrometheusMetric exact_ops 10
     (foldl (\<lambda>h v. RecordValue v h) (NewHdrHistogram 0 ''latency'' 100 3 1) [1, 7, - 1])) =
     \<lparr>SampleCount = 3, SampleSum = 7,
      Bucket = [\<lparr>CumulativeCount = 1, UpperBound = 1\<rparr>, \<lparr>CumulativeCount = 3, UpperBound = 3\<rparr>]\<rparr> \<and>
   sorted_wrt (<) (map UpperBound (Bucket (fst (ToPrometheusMetric exact_ops 10
     (foldl (\<lambda>h v. RecordValue v h) (NewHdrHistogram 0 ''latency'' 100 3 1) [1, 7, - 1]))))) \<and>
   sorted_wrt (\<le>) (map (\<lambda>b. unat (CumulativeCount b)) (Bucket (fst (ToPrometheusMetric exact_ops 10
     (foldl (\<lambda>h v. RecordValue v h) (NewHdrHistogram 0 ''latency'' 100 3 1) [1, 7, - 1]))))) \<and>
   CumulativeCount (last (Bucket (fst (ToPrometheusMetric exact_ops 10
     (foldl (\<lambda>h v. RecordValue v h) (NewHdrHistogram 0 ''latency'' 100 3 1) [1, 7, - 1]))))) =
   SampleCount (fst (ToPrometheusMetric exact_ops 10
     (foldl (\<lambda>h v. RecordValue v h) (NewHdrHistogram 0 ''latency'' 100 3 1) [1, 7, - 1]))) \<and>
   fst (ToPrometheusMetricWindowed exact_ops 10
     (foldl (\<lambda>h v. RecordValue v h) (NewHdrHistogram 0 ''latency'' 100 3 1) [1, 7, - 1])) =
     \<lparr>SampleCount = 3, SampleSum = 7,
      Bucket = [\<lparr>CumulativeCount = 1, UpperBound = 1\<rparr>, \<lparr>CumulativeCount = 3, UpperBound = 3\<rparr>]\<rparr>"
proof -
  let ?h = "foldl (\<lambda>h v. RecordValue v h) (NewHdrHistogram 0 ''latency'' 100 3 1) [1, 7, - 1]"
  let ?H = "fst (ToPrometheusMetric exact_ops 10 ?h)"
  have w: "hdr_wf ?h"
    by code_simp
  have c: "fst (Total' exact_ops ?h) < 2 ^ 63"
    by code_simp
  have s: "fst (TotalWindowed exact_ops ?h) < 2 ^ 63"
    by code_simp
  have m: "\<forall>a b. a < b \<longrightarrow> (<) (f_of_int exact_ops a) (f_of_int exact_ops b)"
    by (simp add: exact_ops_def)
  have v: "?H = \<lparr>SampleCount = 3, SampleSum = 7,
      Bucket = [\<lparr>CumulativeCount = 1, UpperBound = 1\<rparr>, \<lparr>CumulativeCount = 3, UpperBound = 3\<rparr>]\<rparr>"
    by code_simp
  then have ne: "Bucket ?H \<noteq> []"
    by simp
  have d: "?H = fst (ToPrometheusMetric exact_ops 10 ?h) \<or>
           ?H = fst (ToPrometheusMetricWindowed exact_ops 10 ?h)"
    by simp
  have v': "fst (ToPrometheusMetricWindowed exact_ops 10 ?h) =
      \<lparr>SampleCount = 3, SampleSum = 7,
       Bucket = [\<lparr>CumulativeCount = 1, UpperBound = 1\<rparr>, \<lparr>CumulativeCount = 3, UpperBound = 3\<rparr>]\<rparr>"
    by code_simp
  show ?thesis
    using C4_exposition_buckets_are_cumulative [OF w c s m d] w c s v v' ne by blast
qed

subsection \<open>Rotation\<close>

lemma Rotate_length: "length (slots (win_Rotate w)) = length (slots w)"
  by (simp add: win_Rotate_def Let_def)

lemma Rotate_current:
  "slots w \<noteq> [] \<Longrightarrow> current (win_Rotate w) = (current w + 1) mod length (slots w)"
  by (simp add: win_Rotate_def Let_def)

lemma Rotate_slot:
  "i < length (slots w) \<Longrightarrow>
   hist_TotalCount (slots (win_Rotate w) ! i) =
     (if i = (current w + 1) mod length (slots w) then 0 else hist_TotalCount (slots w ! i))"
  by (auto simp: win_Rotate_def Let_def hist_TotalCount_Reset)

lemma Rotate_funpow:
  assumes "slots w \<noteq> []" and that: "current w < length (slots w)"
  shows "length (slots ((win_Rotate ^^ k) w)) = length (slots w) \<and>
         current ((win_Rotate ^^ k) w) = (current w + k) mod length (slots w) \<and>
         (\<forall>j. 1 \<le> j \<and> j \<le> k \<longrightarrow>
              hist_TotalCount (slots ((win_Rotate ^^ k) w) ! ((current w + j) mod length (slots w))) = 0)"
proof (induction k)
  case 0
  then show ?case using that by simp
next
  case (Suc k)
  let ?n = "length (slots w)"
  let ?w = "(win_Rotate ^^ k) w"
  have n: "0 < ?n" using assms by simp
  have len: "length (slots ?w) = ?n" and cur: "current ?w = (current w + k) mod ?n"
    and old: "\<And>j. 1 \<le> j \<Longrightarrow> j \<le> k \<Longrightarrow> hist_TotalCount (slots ?w ! ((current w + j) mod ?n)) = 0"
    using Suc.IH by auto
  have ne: "slots ?w \<noteq> []" using len n by auto
  have cur': "(current ?w + 1) mod length (slots ?w) = (current w + Suc k) mod ?n"
    using cur len by (simp add: mod_Suc_eq)
  have "length (slots (win_Rotate ?w)) = ?n"
    by (simp add: Rotate_length len)
  moreover have "current (win_Rotate ?w) = (current w + Suc k) mod ?n"
    using Rotate_current [OF ne] cur' by simp
  moreover have "hist_TotalCount (slots (win_Rotate ?w) ! ((current w + j) mod ?n)) = 0"
    if "1 \<le> j" "j \<le> Suc k" for j
  proof -
    have "(current w + j) mod ?n < length (slots ?w)"
      using n len by simp
    then have "hist_TotalCount (slots (win_Rotate ?w) ! ((current w + j) mod ?n)) =
        (if (current w + j) mod ?n = (current w + Suc k) mod ?n then 0
         else hist_TotalCount (slots ?w ! ((current w + j) mod ?n)))"
      using Rotate_slot [of "(current w + j) mod ?n" ?w] cur' by simp
    then show ?thesis
      using old [of j] that by (cases "j = Suc k") auto
  qed
  ultimately show ?case by simp
qed

lemma sum_list_all_zero: "\<forall>x \<in> set xs. f x = (0::int) \<Longrightarrow> sum_list (map f xs) = 0"
  by (induction xs) simp_all

lemma all_slots_empty:
  assumes "current w < length (slots w)" "length (slots w) \<le> k"
  shows "sum_list (map hist_TotalCount (slots ((win_Rotate ^^ k) w))) = 0"
proof -
  let ?n = "length (slots w)"
  let ?w = "(win_Rotate ^^ k) w"
  have ne: "slots w \<noteq> []" using assms(1) by auto
  have len: "length (slots ?w) = ?n"
    and old: "\<And>j. 1 \<le> j \<Longrightarrow> j \<le> k \<Longrightarrow> hist_TotalCount (slots ?w ! ((current w + j) mod ?n)) = 0"
    using Rotate_funpow [OF ne assms(1), of k] by auto
  have "hist_TotalCount (slots ?w ! i) = 0" if "i < ?n" for i
  proof -
    let ?j = "(i + ?n - current w - 1) mod ?n + 1"
    have "(current w + ?j) mod ?n = (current w + 1 + (i + ?n - current w - 1) mod ?n) mod ?n"
      by (simp only: ac_simps)
    also have "\<dots> = (current w + 1 + (i + ?n - current w - 1)) mod ?n"
      by (rule mod_add_right_eq)
    also have "current w + 1 + (i + ?n - current w - 1) = i + ?n"
      using assms(1) by linarith
    also have "(i + ?n) mod ?n = i"
      using that by simp
    finally have "(current w + ?j) mod ?n = i" .
    moreover have "1 \<le> ?j" by simp
    moreover have "?j \<le> k"
    proof -
      have "0 < ?n" using ne by simp
      then have "(i + ?n - current w - 1) mod ?n < ?n" by (rule mod_less_divisor)
      then show ?thesis using assms(2) by linarith
    qed
    ultimately show ?thesis using old [of ?j] by simp
  qed
  then have "\<forall>x \<in> set (slots ?w). hist_TotalCount x = 0"
    using len by (auto simp: in_set_conv_nth)
  then show ?thesis
    by (rule sum_list_all_zero)
qed


lemma Tick_sliding: "sliding (Tick t h) = win_Rotate (sliding h)"
  by (simp add: Tick_def ticker_Tick_def)

lemma foldl_Tick_sliding:
  "sliding (foldl (\<lambda>h t. Tick t h) h ts) = (win_Rotate ^^ length ts) (sliding h)"
proof (induction ts arbitrary: h)
  case Nil
  then show ?case by simp
next
  case (Cons t ts)
  then show ?case by (simp add: Tick_sliding funpow_swap1)
qed

lemma hdr_wf_foldl_Tick: "hdr_wf h \<Longrightarrow> hdr_wf (foldl (\<lambda>h t. Tick t h) h ts)"
  by (induction ts arbitrary: h) (simp_all add: Tick_def hdr_wf_ticker_Tick)

text \<open>
  C6. On every state the methods keep, once \<open>W\<close> rotations or more have happened with no
  \<^verbatim>\<open>RecordValue\<close> call between them, where \<open>W\<close> is \<^verbatim>\<open>WindowedHistogramWrapNum\<close>, the
  number of slots, every slot has been cleared and the count that \<^verbatim>\<open>TotalWindowed\<close>
  returns is zero: no sample recorded before those rotations is part of the windowed merge.
  A rotation is one call of \<^verbatim>\<open>Tick\<close>.
\<close>

theorem C6_window_eviction:
  fixes ops :: "'f float64_ops"
  assumes "hdr_wf h" and "WindowedHistogramWrapNum \<le> length ts"
  shows "fst (TotalWindowed ops (foldl (\<lambda>h t. Tick t h) h ts)) = 0"
proof -
  have "current (sliding h) < length (slots (sliding h))"
    and "length (slots (sliding h)) \<le> length ts"
    using assms by (simp_all add: hdr_wf_def)
  then have "sum_list (map hist_TotalCount (slots ((win_Rotate ^^ length ts) (sliding h)))) = 0"
    by (rule all_slots_empty)
  then show ?thesis
    using hdr_wf_foldl_Tick [OF assms(1), of ts]
    by (simp add: TotalWindowed_count foldl_Tick_sliding)
qed

text \<open>
  The theorem at the histogram with ceiling 3 and the three samples 1, 7 and -1: the
  windowed count is 3 before the two rotations and 0 after them, and the cumulative count
  stays 3.
\<close>

theorem C6_witness:
  "hdr_wf (foldl (\<lambda>h v. RecordValue v h) (NewHdrHistogram 0 ''latency'' 100 3 1) [1, 7, - 1]) \<and>
   WindowedHistogramWrapNum \<le> length [50 :: time, 100] \<and>
   fst (TotalWindowed exact_ops
     (foldl (\<lambda>h v. RecordValue v h) (NewHdrHistogram 0 ''latency'' 100 3 1) [1, 7, - 1])) = 3 \<and>
   fst (TotalWindowed exact_ops (foldl (\<lambda>h t. Tick t h)
     (foldl (\<lambda>h v. RecordValue v h) (NewHdrHistogram 0 ''latency'' 100 3 1) [1, 7, - 1])
     [50, 100])) = 0 \<and>
   fst (Total' exact_ops (foldl (\<lambda>h t. Tick t h)
     (foldl (\<lambda>h v. RecordValue v h) (NewHdrHistogram 0 ''latency'' 100 3 1) [1, 7, - 1])
     [50, 100])) = 3"
proof -
  let ?h = "foldl (\<lambda>h v. RecordValue v h) (NewHdrHistogram 0 ''latency'' 100 3 1) [1, 7, - 1]"
  have w: "hdr_wf ?h"
    by code_simp
  have l: "WindowedHistogramWrapNum \<le> length [50 :: time, 100]"
    by (simp add: WindowedHistogramWrapNum_def)
  have b: "fst (TotalWindowed exact_ops ?h) = 3"
    by code_simp
  have c: "fst (Total' exact_ops (foldl (\<lambda>h t. Tick t h) ?h [50, 100])) = 3"
    by code_simp
  show ?thesis
    using C6_window_eviction [OF w l, of exact_ops] w l b c by blast
qed

subsection \<open>Reads and the rotation check\<close>

text \<open>
  C9. \<^verbatim>\<open>Inspect\<close> and \<^verbatim>\<open>ToPrometheusMetric\<close> make the lazy rotation check: the state
  that \<^verbatim>\<open>ToPrometheusMetric\<close> leaves, and the state that \<^verbatim>\<open>Inspect\<close> hands to its
  closure, is the state after \<^verbatim>\<open>tick.MaybeTick\<close>. When a rotation is due the ring is
  rotated and the time of the last rotation becomes \<open>now\<close>; otherwise nothing changes.
  Either way the cumulative distribution and \<open>maxVal\<close> are as before, and the record
  that \<^verbatim>\<open>ToPrometheusMetric\<close> returns is computed from the cumulative distribution alone.
\<close>

theorem C9_cumulative_reads_rotate_the_ring:
  fixes ops :: "'f float64_ops"
  shows "snd (ToPrometheusMetric ops now h) = tick_MaybeTick now h \<and>
         Inspect now f h = f (tick_MaybeTick now h) \<and>
         fst (ToPrometheusMetric ops now h) =
           barsToHistogram ops (hist_Distribution (cumulative h)) \<and>
         cumulative (tick_MaybeTick now h) = cumulative h \<and>
         maxVal (tick_MaybeTick now h) = maxVal h \<and>
         (isDue now (lastRotation (ticker h)) (tickInterval (ticker h)) \<longrightarrow>
            sliding (tick_MaybeTick now h) = win_Rotate (sliding h) \<and>
            lastRotation (ticker (tick_MaybeTick now h)) = now) \<and>
         (\<not> isDue now (lastRotation (ticker h)) (tickInterval (ticker h)) \<longrightarrow>
            tick_MaybeTick now h = h)"
  by (simp add: ToPrometheusMetric_def Inspect_def Let_def MaybeTick_cumulative
      MaybeTick_maxVal tick_MaybeTick_def ticker_Tick_def)

text \<open>
  The theorem at a histogram built at time 0 with window 100 (sub-window 50) that holds
  the sample 1, read at time 60: the rotation is due, the export moves the current index
  from slot 0 to slot 1 and the time of the last rotation to 60, and the cumulative
  distribution is as before.
\<close>

theorem C9_witness:
  "isDue 60 (lastRotation (ticker (RecordValue 1 (NewHdrHistogram 0 ''latency'' 100 3 1))))
     (tickInterval (ticker (RecordValue 1 (NewHdrHistogram 0 ''latency'' 100 3 1)))) \<and>
   current (sliding (RecordValue 1 (NewHdrHistogram 0 ''latency'' 100 3 1))) = 0 \<and>
   current (sliding (snd (ToPrometheusMetric exact_ops 60
     (RecordValue 1 (NewHdrHistogram 0 ''latency'' 100 3 1))))) = 1 \<and>
   lastRotation (ticker (snd (ToPrometheusMetric exact_ops 60
     (RecordValue 1 (NewHdrHistogram 0 ''latency'' 100 3 1))))) = 60 \<and>
   current (sliding (Inspect 60 (\<lambda>h. h)
     (RecordValue 1 (NewHdrHistogram 0 ''latency'' 100 3 1)))) = 1 \<and>
   cumulative (snd (ToPrometheusMetric exact_ops 60
     (RecordValue 1 (NewHdrHistogram 0 ''latency'' 100 3 1)))) =
     cumulative (RecordValue 1 (NewHdrHistogram 0 ''latency'' 100 3 1))"
proof -
  let ?h = "RecordValue 1 (NewHdrHistogram 0 ''latency'' 100 3 1)"
  have d: "isDue 60 (lastRotation (ticker ?h)) (tickInterval (ticker ?h))"
    by code_simp
  have c0: "current (sliding ?h) = 0"
    by code_simp
  have c1: "current (win_Rotate (sliding ?h)) = 1"
    by code_simp
  show ?thesis
    using C9_cumulative_reads_rotate_the_ring [of exact_ops 60 ?h "\<lambda>h. h"] d c0 c1
    by simp
qed

text \<open>
  C2, as the spec states it, fails on the code. Take the histogram that holds the sample
  1 in slot 0 and was rotated once at time 50, so that slot 1 is current. At time 100 the next
  rotation is due. Checking first, as the spec words it, rotates to slot 0, clears it and
  gives the count 0 and the mean 0; the methods do not check, and return the count 1 and
  the mean 1.
\<close>

theorem C2_counterexample:
  "isDue 100
     (lastRotation (ticker (Inspect 50 (\<lambda>h. h)
        (RecordValue 1 (NewHdrHistogram 0 ''latency'' 100 3 1)))))
     (tickInterval (ticker (Inspect 50 (\<lambda>h. h)
        (RecordValue 1 (NewHdrHistogram 0 ''latency'' 100 3 1))))) \<and>
   fst (TotalWindowed exact_ops (Inspect 50 (\<lambda>h. h)
        (RecordValue 1 (NewHdrHistogram 0 ''latency'' 100 3 1)))) = 1 \<and>
   fst (TotalWindowed_spec exact_ops 100 (Inspect 50 (\<lambda>h. h)
        (RecordValue 1 (NewHdrHistogram 0 ''latency'' 100 3 1)))) = 0 \<and>
   MeanWindowed exact_ops (Inspect 50 (\<lambda>h. h)
        (RecordValue 1 (NewHdrHistogram 0 ''latency'' 100 3 1))) = 1 \<and>
   MeanWindowed_spec exact_ops 100 (Inspect 50 (\<lambda>h. h)
        (RecordValue 1 (NewHdrHistogram 0 ''latency'' 100 3 1))) = 0"
proof (intro conjI)
  let ?h = "Inspect 50 (\<lambda>h. h) (RecordValue 1 (NewHdrHistogram 0 ''latency'' 100 3 1))"
  show "isDue 100 (lastRotation (ticker ?h)) (tickInterval (ticker ?h))"
    by code_simp
  show "fst (TotalWindowed exact_ops ?h) = 1"
    by code_simp
  show "fst (TotalWindowed_spec exact_ops 100 ?h) = 0"
    by code_simp
  have s: "map counts (slots (sliding ?h)) = [[0, 1, 0, 0], [0, 0, 0, 0]]"
    by code_simp
  have f: "counts (fresh (sliding ?h)) = [0, 0, 0, 0]"
    by code_simp
  have m: "counts (win_Merge (sliding ?h)) = [0, 1, 0, 0]"
    by code_simp
  show "MeanWindowed exact_ops ?h = 1"
    by (simp add: MeanWindowed_def hist_Mean_def hist_TotalCount_def m exact_ops_def
        upt_conv_Cons)
  have m': "counts (win_Merge (sliding (tick_MaybeTick 100 ?h))) = [0, 0, 0, 0]"
    by code_simp
  show "MeanWindowed_spec exact_ops 100 ?h = 0"
    by (simp add: MeanWindowed_spec_def MeanWindowed_def hist_Mean_def hist_TotalCount_def m'
        exact_ops_def)
qed

text \<open>
  C2, amended. \<^verbatim>\<open>TotalWindowed\<close> and \<^verbatim>\<open>MeanWindowed\<close> make no rotation check: they
  merge the ring as it stands and compute over the merged distribution, so the count is
  the sum of the counts of all slots. At a time when no rotation is due the result is that
  of checking first.
\<close>

theorem C2_windowed_reads_merge_the_ring_as_it_stands:
  fixes ops :: "'f float64_ops"
  assumes "hdr_wf h"
  shows "fst (TotalWindowed ops h) = (\<Sum>s \<leftarrow> slots (sliding h). hist_TotalCount s) \<and>
         snd (TotalWindowed ops h) =
           f_mul ops (f_of_int ops (hist_TotalCount (win_Merge (sliding h))))
             (hist_Mean ops (win_Merge (sliding h))) \<and>
         MeanWindowed ops h = hist_Mean ops (win_Merge (sliding h)) \<and>
         (\<not> isDue now (lastRotation (ticker h)) (tickInterval (ticker h)) \<longrightarrow>
            TotalWindowed_spec ops now h = TotalWindowed ops h \<and>
            MeanWindowed_spec ops now h = MeanWindowed ops h)"
  using assms
  by (simp add: win_Merge_total TotalWindowed_def MeanWindowed_def TotalWindowed_spec_def
      MeanWindowed_spec_def tick_MaybeTick_def Let_def)

text \<open>
  The amended statement at the histogram of the counterexample, read at time 70, when no
  rotation is due: the count is 1, with and without the check.
\<close>

theorem C2_witness:
  "hdr_wf (Inspect 50 (\<lambda>h. h) (RecordValue 1 (NewHdrHistogram 0 ''latency'' 100 3 1))) \<and>
   \<not> isDue 70
     (lastRotation (ticker (Inspect 50 (\<lambda>h. h)
        (RecordValue 1 (NewHdrHistogram 0 ''latency'' 100 3 1)))))
     (tickInterval (ticker (Inspect 50 (\<lambda>h. h)
        (RecordValue 1 (NewHdrHistogram 0 ''latency'' 100 3 1))))) \<and>
   fst (TotalWindowed exact_ops (Inspect 50 (\<lambda>h. h)
        (RecordValue 1 (NewHdrHistogram 0 ''latency'' 100 3 1)))) = 1 \<and>
   TotalWindowed_spec exact_ops 70 (Inspect 50 (\<lambda>h. h)
        (RecordValue 1 (NewHdrHistogram 0 ''latency'' 100 3 1))) =
   TotalWindowed exact_ops (Inspect 50 (\<lambda>h. h)
        (RecordValue 1 (NewHdrHistogram 0 ''latency'' 100 3 1)))"
proof -
  let ?h = "Inspect 50 (\<lambda>h. h) (RecordValue 1 (NewHdrHistogram 0 ''latency'' 100 3 1))"
  have w: "hdr_wf ?h"
    by code_simp
  have d: "\<not> isDue 70 (lastRotation (ticker ?h)) (tickInterval (ticker ?h))"
    by code_simp
  have c: "(\<Sum>s \<leftarrow> slots (sliding ?h). hist_TotalCount s) = 1"
    by code_simp
  show ?thesis
    using C2_windowed_reads_merge_the_ring_as_it_stands [OF w, of exact_ops 70] w d c
    by simp
qed

subsection \<open>Construction\<close>




subsection \<open>Quantiles of an exposition record\<close>

lemma find_mono:
  assumes "\<And>x. Q x \<Longrightarrow> P x"
    and "find P xs = Some a" and "find Q xs = Some b"
    and "sorted_wrt R (map f xs)" and "\<And>x. R x x"
  shows "R (f a) (f b)"
proof -
  obtain i where i: "i < length xs" "P (xs ! i)" "a = xs ! i" "\<forall>j<i. \<not> P (xs ! j)"
    using assms(2) by (auto simp: find_Some_iff)
  obtain k where k: "k < length xs" "Q (xs ! k)" "b = xs ! k"
    using assms(3) by (auto simp: find_Some_iff)
  have "P (xs ! k)" using k(2) by (rule assms(1))
  then have "i \<le> k" using i(4) by (meson not_le)
  show ?thesis
  proof (cases "i = k")
    case True
    then show ?thesis using i(3) k(3) assms(5) by simp
  next
    case False
    then have "i < k" using \<open>i \<le> k\<close> by simp
    then have "R (map f xs ! i) (map f xs ! k)"
      using assms(4) k(1) by (simp add: sorted_wrt_iff_nth_less)
    then show ?thesis using i k by simp
  qed
qed

lemma find_last:
  assumes "xs \<noteq> []" and "P (last xs)" and "\<forall>j. j < length xs - 1 \<longrightarrow> \<not> P (xs ! j)"
  shows "find P xs = Some (last xs)"
proof -
  have "length xs - 1 < length xs" using assms(1) by simp
  moreover have "xs ! (length xs - 1) = last xs" using assms(1) by (simp add: last_conv_nth)
  ultimately show ?thesis using assms(2,3) by (auto simp: find_Some_iff)
qed

lemma quantile_empty:
  "SampleCount window = 0 \<Longrightarrow> ValueAtQuantileWindowed ops q window = f_zero ops"
  by (simp add: ValueAtQuantileWindowed_def metric_ValueAtQuantileWindowed_def)

lemma quantile_found:
  fixes ops :: "'f float64_ops"
  assumes "wellFormedBars bars"
    and "\<forall>a b. a < b \<longrightarrow> R (f_of_int ops a) (f_of_int ops b)"
    and "SampleCount (barsToHistogram ops bars) \<noteq> 0" and "q \<le> 1"
  shows "\<exists>b. find (\<lambda>b. q \<le> real (unat (CumulativeCount b)) /
                        real (unat (SampleCount (barsToHistogram ops bars))))
               (Bucket (barsToHistogram ops bars)) = Some b"
proof -
  let ?H = "barsToHistogram ops bars"
  have ne: "Bucket ?H \<noteq> []"
    using exposition_wellFormed(4) [OF assms(1,2)] assms(3) by blast
  then have "CumulativeCount (last (Bucket ?H)) = SampleCount ?H"
    using exposition_wellFormed(3) [OF assms(1,2)] by blast
  moreover have "real (unat (SampleCount ?H)) \<noteq> 0"
    using assms(3) by (simp add: unsigned_eq_0_iff)
  ultimately have "real (unat (CumulativeCount (last (Bucket ?H)))) / real (unat (SampleCount ?H)) = 1"
    by (simp del: of_nat_unat)
  then have "q \<le> real (unat (CumulativeCount (last (Bucket ?H)))) / real (unat (SampleCount ?H))"
    using assms(4) by (simp del: of_nat_unat)
  moreover have "last (Bucket ?H) \<in> set (Bucket ?H)"
    using ne by simp
  ultimately have "find (\<lambda>b. q \<le> real (unat (CumulativeCount b)) / real (unat (SampleCount ?H)))
               (Bucket ?H) \<noteq> None"
    by (auto simp: find_None_iff)
  then show ?thesis by auto
qed

text \<open>
  C7. For the record that the encoder makes of well-formed bars, and any reflexive order
  \<open>R\<close> of \<^verbatim>\<open>float64\<close> that the conversion from integers respects: the quantile value
  does not decrease from \<open>q1\<close> to \<open>q2\<close> when \<open>0 \<le> q1 \<le> q2 \<le> 1\<close>; at \<open>q = 1\<close> it
  is the upper bound of the last bucket, which no bucket's upper bound exceeds; and for a
  record without samples it is zero, for every \<open>q\<close>.
\<close>

theorem C7_quantile_from_export:
  fixes ops :: "'f float64_ops"
  assumes "wellFormedBars bars"
    and "\<forall>a b. a < b \<longrightarrow> R (f_of_int ops a) (f_of_int ops b)"
    and "\<forall>x. R x x"
  defines "window \<equiv> barsToHistogram ops bars"
  shows "(0 \<le> q1 \<and> q1 \<le> q2 \<and> q2 \<le> 1 \<longrightarrow>
            R (ValueAtQuantileWindowed ops q1 window) (ValueAtQuantileWindowed ops q2 window)) \<and>
         (Bucket window \<noteq> [] \<longrightarrow>
            ValueAtQuantileWindowed ops 1 window = UpperBound (last (Bucket window)) \<and>
            (\<forall>b \<in> set (Bucket window). R (UpperBound b) (UpperBound (last (Bucket window))))) \<and>
         (SampleCount window = 0 \<longrightarrow> ValueAtQuantileWindowed ops q window = f_zero ops)"
proof (intro conjI impI)
  let ?n = "real (unat (SampleCount window))"
  let ?P = "\<lambda>q b. q \<le> real (unat (CumulativeCount b)) / ?n"
  have sortedR: "sorted_wrt R (map UpperBound (Bucket window))"
    unfolding window_def using assms(1,2) by (rule exposition_wellFormed(1))
  have sortedC: "sorted_wrt (<) (map (\<lambda>b. unat (CumulativeCount b)) (Bucket window))"
    unfolding window_def using assms(1,2) by (rule exposition_wellFormed(2))
  have lastC: "Bucket window \<noteq> [] \<Longrightarrow> CumulativeCount (last (Bucket window)) = SampleCount window"
    unfolding window_def using exposition_wellFormed(3) [OF assms(1,2)] by blast
  have pos: "\<forall>b \<in> set (Bucket window). 0 < unat (CumulativeCount b)"
    unfolding window_def using assms(1,2) by (rule exposition_wellFormed(6))
  show "ValueAtQuantileWindowed ops q window = f_zero ops" if "SampleCount window = 0"
    using that by (rule quantile_empty)
  show "R (ValueAtQuantileWindowed ops q1 window) (ValueAtQuantileWindowed ops q2 window)"
    if q: "0 \<le> q1 \<and> q1 \<le> q2 \<and> q2 \<le> 1"
  proof (cases "SampleCount window = 0")
    case True
    then show ?thesis using assms(3) by (simp add: quantile_empty)
  next
    case False
    obtain b1 where b1: "find (?P q1) (Bucket window) = Some b1"
      using quantile_found [OF assms(1,2), of q1] False q unfolding window_def by auto
    obtain b2 where b2: "find (?P q2) (Bucket window) = Some b2"
      using quantile_found [OF assms(1,2), of q2] False q unfolding window_def by auto
    have "R (UpperBound b1) (UpperBound b2)"
    proof (rule find_mono [where P = "?P q1" and Q = "?P q2" and f = UpperBound and R = R, OF _ b1 b2])
      show "?P q1 x" if "?P q2 x" for x :: "'f prometheusgo_Bucket" using that q by linarith
      show "sorted_wrt R (map UpperBound (Bucket window))" by (rule sortedR)
      show "R x x" for x :: 'f using assms(3) by blast
    qed
    then show ?thesis
      using False b1 b2 by (simp add: ValueAtQuantileWindowed_def metric_ValueAtQuantileWindowed_def)
  qed
  assume ne: "Bucket window \<noteq> []"
  have lc: "CumulativeCount (last (Bucket window)) = SampleCount window"
    using ne by (rule lastC)
  have nz: "0 < unat (SampleCount window)"
    using pos lc last_in_set [OF ne] by auto
  then have rnz: "0 < real (unat (SampleCount window))"
    by (simp del: of_nat_unat)
  have "find (?P 1) (Bucket window) = Some (last (Bucket window))"
  proof (rule find_last [OF ne])
    show "?P 1 (last (Bucket window))" using lc rnz by (simp del: of_nat_unat)
    show "\<forall>j. j < length (Bucket window) - 1 \<longrightarrow> \<not> ?P 1 (Bucket window ! j)"
    proof (intro allI impI)
      fix j assume j: "j < length (Bucket window) - 1"
      then have "unat (CumulativeCount (Bucket window ! j)) <
                 unat (CumulativeCount (Bucket window ! (length (Bucket window) - 1)))"
        using sortedC ne by (simp add: sorted_wrt_iff_nth_less)
      then have "unat (CumulativeCount (Bucket window ! j)) < unat (SampleCount window)"
        using lc ne by (simp add: last_conv_nth)
      then have "real (unat (CumulativeCount (Bucket window ! j))) < real (unat (SampleCount window))"
        by (simp del: of_nat_unat)
      then show "\<not> ?P 1 (Bucket window ! j)" using rnz by (simp del: of_nat_unat)
    qed
  qed
  then show "ValueAtQuantileWindowed ops 1 window = UpperBound (last (Bucket window))"
    using nz by (simp add: ValueAtQuantileWindowed_def metric_ValueAtQuantileWindowed_def unat_gt_0)
  show "\<forall>b \<in> set (Bucket window). R (UpperBound b) (UpperBound (last (Bucket window)))"
  proof
    fix b assume "b \<in> set (Bucket window)"
    then obtain j where j: "j < length (Bucket window)" "b = Bucket window ! j"
      by (auto simp: in_set_conv_nth)
    show "R (UpperBound b) (UpperBound (last (Bucket window)))"
    proof (cases "j = length (Bucket window) - 1")
      case True
      then show ?thesis using j ne assms(3) by (simp add: last_conv_nth)
    next
      case False
      then have "j < length (Bucket window) - 1" using j(1) by simp
      then have "R (map UpperBound (Bucket window) ! j)
                   (map UpperBound (Bucket window) ! (length (Bucket window) - 1))"
        using sortedR ne by (simp add: sorted_wrt_iff_nth_less)
      then show ?thesis using j ne by (simp add: last_conv_nth)
    qed
  qed
qed

text \<open>
  The theorem at the bars with counts 0, 2, 0, 1 and bounds 0, 1, 2, 3, in exact
  arithmetic: the quantiles at 1/2, 3/4 and 1 are 1, 3 and 3.
\<close>

theorem C7_witness:
  "wellFormedBars [\<lparr>From = 0, To = 0, Count = 0\<rparr>, \<lparr>From = 1, To = 1, Count = 2\<rparr>,
                   \<lparr>From = 2, To = 2, Count = 0\<rparr>, \<lparr>From = 3, To = 3, Count = 1\<rparr>] \<and>
   barsToHistogram exact_ops
     [\<lparr>From = 0, To = 0, Count = 0\<rparr>, \<lparr>From = 1, To = 1, Count = 2\<rparr>,
      \<lparr>From = 2, To = 2, Count = 0\<rparr>, \<lparr>From = 3, To = 3, Count = 1\<rparr>] =
     \<lparr>SampleCount = 3, SampleSum = 5,
      Bucket = [\<lparr>CumulativeCount = 2, UpperBound = 1\<rparr>, \<lparr>CumulativeCount = 3, UpperBound = 3\<rparr>]\<rparr> \<and>
   ValueAtQuantileWindowed exact_ops (1 / 2) (barsToHistogram exact_ops
     [\<lparr>From = 0, To = 0, Count = 0\<rparr>, \<lparr>From = 1, To = 1, Count = 2\<rparr>,
      \<lparr>From = 2, To = 2, Count = 0\<rparr>, \<lparr>From = 3, To = 3, Count = 1\<rparr>]) = 1 \<and>
   ValueAtQuantileWindowed exact_ops (3 / 4) (barsToHistogram exact_ops
     [\<lparr>From = 0, To = 0, Count = 0\<rparr>, \<lparr>From = 1, To = 1, Count = 2\<rparr>,
      \<lparr>From = 2, To = 2, Count = 0\<rparr>, \<lparr>From = 3, To = 3, Count = 1\<rparr>]) = 3 \<and>
   ValueAtQuantileWindowed exact_ops (1 / 2) (barsToHistogram exact_ops
     [\<lparr>From = 0, To = 0, Count = 0\<rparr>, \<lparr>From = 1, To = 1, Count = 2\<rparr>,
      \<lparr>From = 2, To = 2, Count = 0\<rparr>, \<lparr>From = 3, To = 3, Count = 1\<rparr>])
   \<le> ValueAtQuantileWindowed exact_ops (3 / 4) (barsToHistogram exact_ops
     [\<lparr>From = 0, To = 0, Count = 0\<rparr>, \<lparr>From = 1, To = 1, Count = 2\<rparr>,
      \<lparr>From = 2, To = 2, Count = 0\<rparr>, \<lparr>From = 3, To = 3, Count = 1\<rparr>]) \<and>
   ValueAtQuantileWindowed exact_ops 1 (barsToHistogram exact_ops
     [\<lparr>From = 0, To = 0, Count = 0\<rparr>, \<lparr>From = 1, To = 1, Count = 2\<rparr>,
      \<lparr>From = 2, To = 2, Count = 0\<rparr>, \<lparr>From = 3, To = 3, Count = 1\<rparr>]) = 3"
proof -
  let ?bars = "[\<lparr>From = 0, To = 0, Count = 0\<rparr>, \<lparr>From = 1, To = 1, Count = 2\<rparr>,
                \<lparr>From = 2, To = 2, Count = 0\<rparr>, \<lparr>From = 3, To = 3, Count = 1\<rparr>]"
  let ?w = "\<lparr>SampleCount = 3, SampleSum = 5,
      Bucket = [\<lparr>CumulativeCount = 2, UpperBound = 1\<rparr>, \<lparr>CumulativeCount = 3, UpperBound = 3\<rparr>]\<rparr>
      :: real prometheusgo_Histogram"
  have wfb: "wellFormedBars ?bars"
    by (simp add: wellFormedBars_def)
  have m: "\<forall>a b. a < b \<longrightarrow> f_of_int exact_ops a \<le> f_of_int exact_ops b"
    by (simp add: exact_ops_def)
  have r: "\<forall>x :: real. x \<le> x"
    by simp
  have b: "barsToHistogram exact_ops ?bars = ?w"
    by code_simp
  have q: "0 \<le> (1 / 2 :: real) \<and> (1 / 2 :: real) \<le> 3 / 4 \<and> (3 / 4 :: real) \<le> 1"
    by simp
  have h: "ValueAtQuantileWindowed exact_ops (1 / 2) ?w = 1"
    by (simp add: ValueAtQuantileWindowed_def metric_ValueAtQuantileWindowed_def exact_ops_def)
  have t: "ValueAtQuantileWindowed exact_ops (3 / 4) ?w = 3"
    by (simp add: ValueAtQuantileWindowed_def metric_ValueAtQuantileWindowed_def exact_ops_def)
  have ne: "Bucket ?w \<noteq> []"
    by simp
  show ?thesis
    using C7_quantile_from_export [OF wfb m r, of "1 / 2" "3 / 4"] q ne h t wfb
    unfolding b by simp
qed

end
